theory Spec2Isabelle
  imports Complex_Main
begin

section \<open>Data model (enums.py, models.py)\<close>

datatype JobFrequency = DAILY | WEEKLY | MONTHLY

text \<open>\<open>JobFrequency\<close> is a \<open>StrEnum\<close>: every member is the string given here, and it
  hashes and compares as that string.\<close>

fun JobFrequency_value :: "JobFrequency \<Rightarrow> string" where
  "JobFrequency_value DAILY = ''daily''"
| "JobFrequency_value WEEKLY = ''weekly''"
| "JobFrequency_value MONTHLY = ''monthly''"

datatype JobStatus = STALE | ERROR | FAILED | RUNNING | SUCCESS | CRASHED | MISSING | UNKNOWN

text \<open>A naive \<open>datetime.datetime\<close>: the fields the constructor stores.\<close>

record datetime =
  year :: int
  month :: int
  day :: int
  hour :: int
  minute :: int
  second :: int
  microsecond :: int

record Job =
  name :: string
  frequency :: JobFrequency
  log_pattern :: string
  process_pattern :: string

record JobState =
  status :: JobStatus
  message :: string
  file_path :: "string option"
  last_modification_time :: "datetime option"

section \<open>The world outside the program\<close>

text \<open>An instance of Python's \<open>Exception\<close>; the string is what \<open>str(e)\<close> gives.\<close>

datatype exn = Exception string

fun str_exn :: "exn \<Rightarrow> string" where
  "str_exn (Exception s) = s"

text \<open>
  One snapshot of what the operating system answers. Modification times are the floats of
  \<open>os.path.getmtime\<close>, of which only the order is used; file contents are bytes (values
  below 256); decoded text is a list of code points. \<open>decode_replace\<close> is what a text file
  opened with \<open>errors="replace"\<close> makes of the bytes: it is total, since that error handler
  substitutes U+FFFD where the codec cannot decode.
\<close>

record world =
  environ_HOME :: "string option"
  getpwuid_dir :: "string option"
  getpwnam_dir :: "string \<Rightarrow> string option"
  glob_result :: "string \<Rightarrow> string list"
  getmtime_result :: "string \<Rightarrow> exn + rat"
  subprocess_result :: "string list \<Rightarrow> exn + int"
  now_result :: datetime
  fromtimestamp_result :: "rat \<Rightarrow> exn + datetime"
  read_result :: "string \<Rightarrow> exn + nat list"
  decode_replace :: "nat list \<Rightarrow> nat list"

text \<open>The calls that leave the program, in the order they are made.\<close>

datatype event =
    Ev_subprocess "string list"
  | Ev_glob string
  | Ev_getmtime string
  | Ev_now
  | Ev_open string

type_synonym 'a io = "(exn + 'a) \<times> event list"

definition return_io :: "'a \<Rightarrow> 'a io" where
  "return_io x = (Inr x, [])"

definition bind_io :: "'a io \<Rightarrow> ('a \<Rightarrow> 'b io) \<Rightarrow> 'b io" where
  "bind_io m f =
     (case m of
        (Inl e, t) \<Rightarrow> (Inl e, t)
      | (Inr x, t) \<Rightarrow> (case f x of (r, t') \<Rightarrow> (r, t @ t')))"

text \<open>\<open>try: m except Exception as e: h e\<close>\<close>

definition try_except :: "'a io \<Rightarrow> (exn \<Rightarrow> 'a io) \<Rightarrow> 'a io" where
  "try_except m h =
     (case m of
        (Inl e, t) \<Rightarrow> (case h e of (r, t') \<Rightarrow> (r, t @ t'))
      | (Inr x, t) \<Rightarrow> (Inr x, t))"

definition subprocess_call :: "world \<Rightarrow> string list \<Rightarrow> int io" where
  "subprocess_call w args = (subprocess_result w args, [Ev_subprocess args])"

definition glob_glob :: "world \<Rightarrow> string \<Rightarrow> (string list) io" where
  "glob_glob w pattern = (Inr (glob_result w pattern), [Ev_glob pattern])"

definition getmtime :: "world \<Rightarrow> string \<Rightarrow> rat io" where
  "getmtime w path = (getmtime_result w path, [Ev_getmtime path])"

definition datetime_now :: "world \<Rightarrow> datetime io" where
  "datetime_now w = (Inr (now_result w), [Ev_now])"

definition fromtimestamp :: "world \<Rightarrow> rat \<Rightarrow> datetime io" where
  "fromtimestamp w t = (fromtimestamp_result w t, [])"

text \<open>\<open>with open(filepath, "r", errors="replace") as f: content = f.read()\<close>\<close>

definition open_read :: "world \<Rightarrow> string \<Rightarrow> (nat list) io" where
  "open_read w filepath =
     (case read_result w filepath of
        Inl e \<Rightarrow> (Inl e, [Ev_open filepath])
      | Inr bytes \<Rightarrow> (Inr (decode_replace w bytes), [Ev_open filepath]))"

section \<open>Library functions the program calls\<close>

subsection \<open>\<open>posixpath.expanduser\<close>\<close>

fun find_sep :: "string \<Rightarrow> nat \<Rightarrow> nat option" where
  "find_sep [] i = None"
| "find_sep (c # cs) i = (if c = CHR ''/'' then Some i else find_sep cs (Suc i))"

fun rstrip_sep :: "string \<Rightarrow> string" where
  "rstrip_sep [] = []"
| "rstrip_sep (c # cs) =
     (let r = rstrip_sep cs in if r = [] \<and> c = CHR ''/'' then [] else c # r)"

definition expanduser :: "world \<Rightarrow> string \<Rightarrow> string" where
  "expanduser w path =
     (case path of
        [] \<Rightarrow> path
      | c # rest \<Rightarrow>
          if c \<noteq> CHR ''~'' then path
          else
            (let i = (case find_sep rest 1 of None \<Rightarrow> length path | Some j \<Rightarrow> j);
                 userhome =
                   (if i = 1 then
                      (case environ_HOME w of None \<Rightarrow> getpwuid_dir w | Some h \<Rightarrow> Some h)
                    else getpwnam_dir w (take (i - 1) rest))
             in case userhome of
                  None \<Rightarrow> path
                | Some h \<Rightarrow>
                    (let r = rstrip_sep h @ drop i path in if r = [] then ''/'' else r)))"

subsection \<open>\<open>max(iterable, key=...)\<close>\<close>

fun max_key_loop :: "('a \<Rightarrow> ('k::linorder) io) \<Rightarrow> 'a \<Rightarrow> 'k \<Rightarrow> 'a list \<Rightarrow> 'a io" where
  "max_key_loop key maxitem maxval [] = return_io maxitem"
| "max_key_loop key maxitem maxval (item # items) =
     bind_io (key item) (\<lambda>val.
       if val > maxval then max_key_loop key item val items
       else max_key_loop key maxitem maxval items)"

definition max_key :: "('a \<Rightarrow> ('k::linorder) io) \<Rightarrow> 'a list \<Rightarrow> 'a io" where
  "max_key key xs =
     (case xs of
        [] \<Rightarrow> (Inl (Exception ''max() iterable argument is empty''), [])
      | item # items \<Rightarrow> bind_io (key item) (\<lambda>val. max_key_loop key item val items))"

subsection \<open>\<open>sub in s\<close> on strings\<close>

fun startswith :: "'a list \<Rightarrow> 'a list \<Rightarrow> bool" where
  "startswith s [] = True"
| "startswith [] (p # ps) = False"
| "startswith (c # cs) (p # ps) = (c = p \<and> startswith cs ps)"

fun str_contains :: "'a list \<Rightarrow> 'a list \<Rightarrow> bool" where
  "str_contains [] sub = (sub = [])"
| "str_contains (c # cs) sub = (startswith (c # cs) sub \<or> str_contains cs sub)"

subsection \<open>\<open>date.isocalendar\<close>\<close>

definition is_leap :: "int \<Rightarrow> bool" where
  "is_leap y = (y mod 4 = 0 \<and> (y mod 100 \<noteq> 0 \<or> y mod 400 = 0))"

definition days_before_year :: "int \<Rightarrow> int" where
  "days_before_year yr = (let y = yr - 1 in y * 365 + y div 4 - y div 100 + y div 400)"

definition DAYS_IN_MONTH :: "int list" where
  "DAYS_IN_MONTH = [-1, 31, 28, 31, 30, 31, 30, 31, 31, 30, 31, 30, 31]"

definition DAYS_BEFORE_MONTH :: "int list" where
  "DAYS_BEFORE_MONTH = [-1, 0, 31, 59, 90, 120, 151, 181, 212, 243, 273, 304, 334]"

definition days_in_month :: "int \<Rightarrow> int \<Rightarrow> int" where
  "days_in_month y m = (if m = 2 \<and> is_leap y then 29 else DAYS_IN_MONTH ! nat m)"

definition days_before_month :: "int \<Rightarrow> int \<Rightarrow> int" where
  "days_before_month y m = DAYS_BEFORE_MONTH ! nat m + (if m > 2 \<and> is_leap y then 1 else 0)"

definition ymd2ord :: "int \<Rightarrow> int \<Rightarrow> int \<Rightarrow> int" where
  "ymd2ord y m d = days_before_year y + days_before_month y m + d"

definition isoweek1monday :: "int \<Rightarrow> int" where
  "isoweek1monday y =
     (let firstday = ymd2ord y 1 1;
          firstweekday = (firstday + 6) mod 7;
          week1monday = firstday - firstweekday
      in if firstweekday > 3 then week1monday + 7 else week1monday)"

text \<open>The first two components of \<open>isocalendar()\<close>: ISO year and ISO week number.\<close>

definition isocalendar2 :: "datetime \<Rightarrow> int \<times> int" where
  "isocalendar2 dt =
     (let y = year dt;
          week1monday = isoweek1monday y;
          today = ymd2ord (year dt) (month dt) (day dt);
          week = (today - week1monday) div 7
      in if week < 0 then
           (let y' = y - 1; week1monday' = isoweek1monday y'
            in (y', (today - week1monday') div 7 + 1))
         else if week \<ge> 52 then
           (if today \<ge> isoweek1monday (y + 1) then (y + 1, 0 + 1) else (y, week + 1))
         else (y, week + 1))"

text \<open>What the constructors of \<open>date\<close> and \<open>datetime\<close> accept.\<close>

definition valid_date :: "datetime \<Rightarrow> bool" where
  "valid_date dt =
     (1 \<le> year dt \<and> year dt \<le> 9999 \<and> 1 \<le> month dt \<and> month dt \<le> 12 \<and>
      1 \<le> day dt \<and> day dt \<le> days_in_month (year dt) (month dt))"

text \<open>\<open>date.toordinal\<close> and \<open>date.weekday\<close> (Monday is 0).\<close>

definition toordinal :: "datetime \<Rightarrow> int" where
  "toordinal dt = ymd2ord (year dt) (month dt) (day dt)"

definition weekday :: "datetime \<Rightarrow> int" where
  "weekday dt = (toordinal dt + 6) mod 7"

section \<open>core.py\<close>

definition MARKER_FAILED :: "nat list" where
  "MARKER_FAILED = map of_char ''[JOB FAILED]''"

definition MARKER_SUCCESS :: "nat list" where
  "MARKER_SUCCESS = map of_char ''[JOB SUCCEEDED]''"

definition MARKER_STARTED :: "nat list" where
  "MARKER_STARTED = map of_char ''[JOB STARTED]''"

definition check_daily :: "datetime \<Rightarrow> datetime \<Rightarrow> bool" where
  "check_daily last_run current_time =
     ((year last_run, month last_run, day last_run) =
      (year current_time, month current_time, day current_time))"

definition check_weekly :: "datetime \<Rightarrow> datetime \<Rightarrow> bool" where
  "check_weekly last_run current_time = (isocalendar2 last_run = isocalendar2 current_time)"

definition check_monthly :: "datetime \<Rightarrow> datetime \<Rightarrow> bool" where
  "check_monthly last_run current_time =
     (month last_run = month current_time \<and> year last_run = year current_time)"

definition FREQUENCY_STRATEGIES :: "string \<rightharpoonup> (datetime \<Rightarrow> datetime \<Rightarrow> bool)" where
  "FREQUENCY_STRATEGIES =
     [JobFrequency_value DAILY \<mapsto> check_daily,
      JobFrequency_value WEEKLY \<mapsto> check_weekly,
      JobFrequency_value MONTHLY \<mapsto> check_monthly]"

definition is_job_running :: "world \<Rightarrow> string option \<Rightarrow> bool io" where
  "is_job_running w pattern =
     (case pattern of
        None \<Rightarrow> return_io False
      | Some p \<Rightarrow>
          if p = [] then return_io False
          else try_except
                 (bind_io (subprocess_call w [''pgrep'', ''-f'', p]) (\<lambda>rc. return_io (rc = 0)))
                 (\<lambda>e. return_io False))"

definition is_execution_within_current_interval ::
  "world \<Rightarrow> datetime \<Rightarrow> string \<Rightarrow> datetime option \<Rightarrow> bool io" where
  "is_execution_within_current_interval w last_run freq current_time =
     bind_io (case current_time of None \<Rightarrow> datetime_now w | Some c \<Rightarrow> return_io c)
       (\<lambda>current_time.
          case FREQUENCY_STRATEGIES freq of
            None \<Rightarrow> return_io False
          | Some check_strategy \<Rightarrow> return_io (check_strategy last_run current_time))"

definition analyze_log_file :: "world \<Rightarrow> string \<Rightarrow> datetime \<Rightarrow> JobState io" where
  "analyze_log_file w filepath modification_time =
     try_except
       (bind_io (open_read w filepath) (\<lambda>content.
          if str_contains content MARKER_FAILED then
            return_io \<lparr>status = FAILED, message = ''Failed'', file_path = Some filepath,
                       last_modification_time = Some modification_time\<rparr>
          else if str_contains content MARKER_SUCCESS then
            return_io \<lparr>status = SUCCESS, message = ''Finished'', file_path = Some filepath,
                       last_modification_time = Some modification_time\<rparr>
          else if str_contains content MARKER_STARTED then
            return_io \<lparr>status = CRASHED, message = ''Crashed'', file_path = Some filepath,
                       last_modification_time = Some modification_time\<rparr>
          else
            return_io \<lparr>status = UNKNOWN, message = ''Unknown log format'', file_path = Some filepath,
                       last_modification_time = Some modification_time\<rparr>))
       (\<lambda>e. return_io \<lparr>status = ERROR, message = str_exn e, file_path = Some filepath,
                        last_modification_time = None\<rparr>)"

definition get_latest_log_file :: "world \<Rightarrow> Job \<Rightarrow> (string option) io" where
  "get_latest_log_file w job =
     (let pattern = expanduser w (log_pattern job) in
      bind_io (glob_glob w pattern) (\<lambda>files.
        if files \<noteq> [] then bind_io (max_key (getmtime w) files) (\<lambda>f. return_io (Some f))
        else return_io None))"

definition get_job_state :: "world \<Rightarrow> Job \<Rightarrow> JobState io" where
  "get_job_state w job =
     bind_io (is_job_running w (Some (process_pattern job))) (\<lambda>running.
       if running then
         bind_io (get_latest_log_file w job) (\<lambda>latest.
           return_io \<lparr>status = RUNNING, message = ''Process active'', file_path = latest,
                      last_modification_time = None\<rparr>)
       else
         bind_io (get_latest_log_file w job) (\<lambda>latest_file.
           case latest_file of
             None \<Rightarrow>
               return_io \<lparr>status = MISSING, message = ''No logs found'', file_path = None,
                          last_modification_time = None\<rparr>
           | Some lf \<Rightarrow>
               if lf = [] then
                 return_io \<lparr>status = MISSING, message = ''No logs found'', file_path = None,
                            last_modification_time = None\<rparr>
               else
                 bind_io (getmtime w lf) (\<lambda>mtime.
                 bind_io (fromtimestamp w mtime) (\<lambda>last_log_modification_time.
                 bind_io (is_execution_within_current_interval w last_log_modification_time
                            (JobFrequency_value (frequency job)) None) (\<lambda>in_interval.
                   if \<not> in_interval then
                     return_io \<lparr>status = STALE, message = ''Pending'', file_path = Some lf,
                                last_modification_time = Some last_log_modification_time\<rparr>
                   else analyze_log_file w lf last_log_modification_time)))))"

section \<open>Notions of the specification, and a concrete world\<close>

text \<open>``The marker appears anywhere in the content'': some prefix and some suffix surround it.\<close>

definition occurs_in :: "'a list \<Rightarrow> 'a list \<Rightarrow> bool" where
  "occurs_in sub s = (\<exists>pre post. s = pre @ sub @ post)"

text \<open>
  ``Both timestamps fall in the same calendar period of the frequency'': the same calendar
  date; the same ISO week, given by the week-numbering year and the week number; the same
  month of the same year.
\<close>

definition same_calendar_period :: "JobFrequency \<Rightarrow> datetime \<Rightarrow> datetime \<Rightarrow> bool" where
  "same_calendar_period fr a b =
     (case fr of
        DAILY \<Rightarrow> year a = year b \<and> month a = month b \<and> day a = day b
      | WEEKLY \<Rightarrow> isocalendar2 a = isocalendar2 b
      | MONTHLY \<Rightarrow> year a = year b \<and> month a = month b)"

text \<open>The ASCII codec with \<open>errors="replace"\<close>: every byte it cannot decode becomes U+FFFD.\<close>

definition ascii_replace :: "nat list \<Rightarrow> nat list" where
  "ascii_replace bytes = map (\<lambda>b. if b < 128 then b else 65533) bytes"

text \<open>A home directory with two logs, \<open>b.log\<close> the newer; no matching process.\<close>

definition mk_datetime :: "int \<Rightarrow> int \<Rightarrow> int \<Rightarrow> int \<Rightarrow> int \<Rightarrow> datetime" where
  "mk_datetime y m d h mi =
     \<lparr>year = y, month = m, day = d, hour = h, minute = mi, second = 0, microsecond = 0\<rparr>"

definition example_job :: Job where
  "example_job =
     \<lparr>name = ''Daily Backup'', frequency = DAILY, log_pattern = ''~/logs/*.log'',
      process_pattern = ''backup_script.py''\<rparr>"

definition example_world :: world where
  "example_world =
     \<lparr>environ_HOME = Some ''/home/u'',
      getpwuid_dir = Some ''/home/u'',
      getpwnam_dir = (\<lambda>user. None),
      glob_result = (\<lambda>p. if p = ''/home/u/logs/*.log''
                         then [''/home/u/logs/a.log'', ''/home/u/logs/b.log''] else []),
      getmtime_result = (\<lambda>p. if p = ''/home/u/logs/a.log'' then Inr 100
                             else if p = ''/home/u/logs/b.log'' then Inr 200
                             else Inl (Exception ''[Errno 2] No such file or directory'')),
      subprocess_result = (\<lambda>args. Inr 1),
      now_result = mk_datetime 2026 2 1 15 0,
      fromtimestamp_result = (\<lambda>t. if t = 200 then Inr (mk_datetime 2026 1 31 12 0)
                                  else Inr (mk_datetime 2026 1 30 12 0)),
      read_result = (\<lambda>p. if p = ''/home/u/logs/a.log''
                         then Inr (map of_char ''[JOB STARTED][JOB SUCCEEDED][JOB FAILED]'')
                         else if p = ''/home/u/logs/b.log''
                         then Inr (255 # map of_char ''[JOB SUCCEEDED]'')
                         else Inl (Exception ''[Errno 2] No such file or directory'')),
      decode_replace = ascii_replace\<rparr>"

text \<open>Variants of it: the process is found; nothing matches the pattern; both.\<close>

definition world_running :: world where
  "world_running = example_world\<lparr>subprocess_result := (\<lambda>args. Inr 0)\<rparr>"

definition world_no_logs :: world where
  "world_no_logs = example_world\<lparr>glob_result := (\<lambda>p. [])\<rparr>"

definition world_running_no_logs :: world where
  "world_running_no_logs =
     example_world\<lparr>glob_result := (\<lambda>p. []), subprocess_result := (\<lambda>args. Inr 0)\<rparr>"

section \<open>The calendar: ISO weeks are the weeks from Monday to Sunday\<close>

lemma div_succ:
  fixes a k :: int
  assumes "0 < k"
  shows "(a + 1) div k = a div k + (if (a + 1) mod k = 0 then 1 else 0)"
proof -
  define q where "q = a div k"
  define r where "r = a mod k"
  have a: "a = k * q + r" by (simp add: q_def r_def)
  have r: "0 \<le> r" "r < k" using assms by (simp_all add: r_def)
  show ?thesis
  proof (cases "r + 1 = k")
    case True
    have e: "a + 1 = k * (q + 1) + 0" using a True by (simp add: algebra_simps)
    have "(a + 1) div k = q + 1" using assms by (intro int_div_pos_eq [OF e]) simp_all
    moreover have "(a + 1) mod k = 0" using assms by (intro int_mod_pos_eq [OF e]) simp_all
    ultimately show ?thesis by (simp add: q_def)
  next
    case False
    have e: "a + 1 = k * q + (r + 1)" using a by simp
    have lt: "r + 1 < k" using r False by simp
    have "(a + 1) div k = q" using r lt by (intro int_div_pos_eq [OF e]) simp_all
    moreover have "(a + 1) mod k = r + 1" using r lt by (intro int_mod_pos_eq [OF e]) simp_all
    ultimately show ?thesis using r by (simp add: q_def)
  qed
qed


lemma div_pred:
  fixes y k :: int
  assumes "0 < k"
  shows "y div k = (y - 1) div k + (if y mod k = 0 then 1 else 0)"
  using div_succ [OF assms, of "y - 1"] by (simp only: diff_add_cancel)

lemma days_before_year_step:
  "days_before_year (y + 1) = days_before_year y + (if is_leap y then 366 else 365)"
proof -
  define a4 where "a4 = (y - 1) div 4"
  define a100 where "a100 = (y - 1) div 100"
  define a400 where "a400 = (y - 1) div 400"
  define b4 where "b4 = y div 4"
  define b100 where "b100 = y div 100"
  define b400 where "b400 = y div 400"
  define p4 where "p4 = (y mod 4 = 0)"
  define p100 where "p100 = (y mod 100 = 0)"
  define p400 where "p400 = (y mod 400 = 0)"
  have d4: "b4 = a4 + (if p4 then 1 else 0)"
    unfolding a4_def b4_def p4_def by (rule div_pred) simp
  have d100: "b100 = a100 + (if p100 then 1 else 0)"
    unfolding a100_def b100_def p100_def by (rule div_pred) simp
  have d400: "b400 = a400 + (if p400 then 1 else 0)"
    unfolding a400_def b400_def p400_def by (rule div_pred) simp
  have "y mod 400 mod 100 = y mod 100" by (rule mod_mod_cancel) simp
  then have m1: "p400 \<Longrightarrow> p100" unfolding p400_def p100_def by simp
  have "y mod 100 mod 4 = y mod 4" by (rule mod_mod_cancel) simp
  then have m2: "p100 \<Longrightarrow> p4" unfolding p100_def p4_def by simp
  have l: "is_leap y = (p4 \<and> (\<not> p100 \<or> p400))"
    unfolding is_leap_def p4_def p100_def p400_def by (rule refl)
  have e1: "days_before_year (y + 1) = y * 365 + b4 - b100 + b400"
    unfolding days_before_year_def Let_def b4_def b100_def b400_def
    by (simp only: add_diff_cancel_right')
  have e2: "days_before_year y = (y - 1) * 365 + a4 - a100 + a400"
    unfolding days_before_year_def Let_def a4_def a100_def a400_def by (rule refl)
  show ?thesis
    unfolding e1 e2 l d4 d100 d400 using m1 m2
    by (cases p4; cases p100; cases p400; simp add: algebra_simps)
qed
lemma isoweek1monday_mod: "isoweek1monday y mod 7 = 1"
  unfolding isoweek1monday_def Let_def by simp presburger

lemma isoweek1monday_near:
  "ymd2ord y 1 1 - 3 \<le> isoweek1monday y \<and> isoweek1monday y \<le> ymd2ord y 1 1 + 3"
  unfolding isoweek1monday_def Let_def
  by simp presburger

lemma ymd2ord_jan1: "ymd2ord y 1 1 = days_before_year y + 1"
  by (simp add: ymd2ord_def days_before_month_def DAYS_BEFORE_MONTH_def)

lemma multiple_of_7_between:
  "(d::int) mod 7 = 0 \<Longrightarrow> 359 \<le> d \<Longrightarrow> d \<le> 372 \<Longrightarrow> d = 364 \<or> d = 371"
  by presburger

lemma isoweek1monday_step:
  "isoweek1monday (y + 1) = isoweek1monday y + 364 \<or> isoweek1monday (y + 1) = isoweek1monday y + 371"
proof -
  define d where "d = isoweek1monday (y + 1) - isoweek1monday y"
  have a: "ymd2ord (y + 1) 1 1 = ymd2ord y 1 1 + 365 \<or> ymd2ord (y + 1) 1 1 = ymd2ord y 1 1 + 366"
    by (simp add: ymd2ord_jan1 days_before_year_step)
  have "d mod 7 = (isoweek1monday (y + 1) mod 7 - isoweek1monday y mod 7) mod 7"
    unfolding d_def by (simp add: mod_diff_eq)
  then have m: "d mod 7 = 0" by (simp add: isoweek1monday_mod)
  have b: "359 \<le> d" "d \<le> 372"
    using a isoweek1monday_near [of y] isoweek1monday_near [of "y + 1"]
    unfolding d_def by linarith+
  from multiple_of_7_between [OF m b] show ?thesis unfolding d_def by linarith
qed

lemma month_cases:
  "1 \<le> (m::int) \<Longrightarrow> m \<le> 12 \<Longrightarrow>
   m = 1 \<or> m = 2 \<or> m = 3 \<or> m = 4 \<or> m = 5 \<or> m = 6 \<or> m = 7 \<or> m = 8 \<or> m = 9 \<or> m = 10 \<or> m = 11 \<or> m = 12"
  by arith

lemma day_of_year_bounds:
  assumes "1 \<le> m" "m \<le> 12" "1 \<le> d" "d \<le> days_in_month y m"
  shows "1 \<le> days_before_month y m + d \<and>
         days_before_month y m + d \<le> (if is_leap y then 366 else 365)"
  using month_cases [OF assms(1,2)] assms(3,4)
  by (auto simp: days_before_month_def days_in_month_def DAYS_BEFORE_MONTH_def DAYS_IN_MONTH_def)

lemma toordinal_bounds:
  assumes "valid_date dt"
  shows "days_before_year (year dt) + 1 \<le> toordinal dt \<and>
         toordinal dt \<le> days_before_year (year dt + 1)"
proof -
  from assms have "1 \<le> month dt" "month dt \<le> 12" "1 \<le> day dt"
    "day dt \<le> days_in_month (year dt) (month dt)"
    by (simp_all add: valid_date_def)
  from day_of_year_bounds [OF this] show ?thesis
    by (simp add: toordinal_def ymd2ord_def days_before_year_step split: if_splits)
qed

lemma isoweek1monday_mono_nat: "isoweek1monday y \<le> isoweek1monday (y + int n)"
proof (induction n)
  case 0
  then show ?case by simp
next
  case (Suc n)
  have e: "y + int (Suc n) = (y + int n) + 1" by simp
  have "isoweek1monday (y + int n) \<le> isoweek1monday ((y + int n) + 1)"
    using isoweek1monday_step [of "y + int n"] by auto
  with Suc show ?case unfolding e by (rule order_trans)
qed

lemma isoweek1monday_mono: "y \<le> y' \<Longrightarrow> isoweek1monday y \<le> isoweek1monday y'"
  using isoweek1monday_mono_nat [of y "nat (y' - y)"] by simp

lemma div7_bounds: "7 * ((a::int) div 7) \<le> a" "a < 7 * (a div 7) + 7"
  by presburger+

lemma week_count_le:
  fixes w a d :: int
  assumes "7 * w \<le> a" "a < d" "d = 364 \<or> d = 371"
  shows "7 * w + 7 \<le> d"
proof -
  from assms(3) obtain k where k: "d = 7 * k" by (elim disjE) simp_all
  from assms(1,2) k have "7 * w < 7 * k" by linarith
  then have "w < k" by simp
  with k show ?thesis by linarith
qed

lemma isocalendar2_spec:
  assumes v: "valid_date dt" and r: "isocalendar2 dt = (Y, W)"
  shows "1 \<le> W \<and> isoweek1monday Y + 7 * (W - 1) \<le> toordinal dt \<and>
         toordinal dt < isoweek1monday Y + 7 * W \<and>
         isoweek1monday Y + 7 * W \<le> isoweek1monday (Y + 1)"
proof -
  define y where "y = year dt"
  define t where "t = toordinal dt"
  define m0 where "m0 = isoweek1monday y"
  define m1 where "m1 = isoweek1monday (y + 1)"
  define m2 where "m2 = isoweek1monday (y + 2)"
  define mp where "mp = isoweek1monday (y - 1)"
  define f0 where "f0 = days_before_year y + 1"
  define f1 where "f1 = days_before_year (y + 1) + 1"
  define wk where "wk = (t - m0) div 7"
  define wp where "wp = (t - mp) div 7"
  have s0: "m1 = m0 + 364 \<or> m1 = m0 + 371"
    unfolding m0_def m1_def by (rule isoweek1monday_step)
  have s1: "m2 = m1 + 364 \<or> m2 = m1 + 371"
    unfolding m1_def m2_def using isoweek1monday_step [of "y + 1"] by (simp add: add.assoc)
  have sp: "m0 = mp + 364 \<or> m0 = mp + 371"
    unfolding m0_def mp_def using isoweek1monday_step [of "y - 1"] by simp
  have n0: "f0 - 3 \<le> m0" "m0 \<le> f0 + 3"
    unfolding m0_def f0_def using isoweek1monday_near [of y] by (simp_all add: ymd2ord_jan1)
  have n1: "f1 - 3 \<le> m1" "m1 \<le> f1 + 3"
    unfolding m1_def f1_def using isoweek1monday_near [of "y + 1"] by (simp_all add: ymd2ord_jan1)
  have tb: "f0 \<le> t" "t \<le> f1 - 1"
    unfolding t_def f0_def f1_def y_def using toordinal_bounds [OF v] by simp_all
  have wk: "7 * wk \<le> t - m0" "t - m0 < 7 * wk + 7"
    unfolding wk_def by (rule div7_bounds)+
  have wp: "7 * wp \<le> t - mp" "t - mp < 7 * wp + 7"
    unfolding wp_def by (rule div7_bounds)+
  have res: "(Y, W) =
     (if wk < 0 then (y - 1, wp + 1)
      else if wk \<ge> 52 then (if t \<ge> m1 then (y + 1, 1) else (y, wk + 1))
      else (y, wk + 1))"
    unfolding r [symmetric] isocalendar2_def Let_def y_def t_def m0_def m1_def mp_def
      wk_def wp_def toordinal_def
    by simp
  consider (prev) "wk < 0" | (nxt) "wk \<ge> 52" "t \<ge> m1" | (same) "0 \<le> wk" "wk < 52 \<or> t < m1"
    by linarith
  then show ?thesis
  proof cases
    case prev
    with res have Y: "Y = y - 1" and W: "W = wp + 1" by simp_all
    have "isoweek1monday Y = mp" "isoweek1monday (Y + 1) = m0" by (simp_all add: Y mp_def m0_def)
    moreover have "t < m0" using prev wk by linarith
    moreover have "0 \<le> wp" using wp sp n0 tb by linarith
    moreover have "7 * wp + 7 \<le> m0 - mp"
      using week_count_le [of wp "t - mp" "m0 - mp"] sp wp \<open>t < m0\<close> by linarith
    ultimately show ?thesis unfolding W t_def [symmetric] using wp by simp
  next
    case nxt
    with res have Y: "Y = y + 1" and W: "W = 1" by simp_all
    have "isoweek1monday Y = m1" "isoweek1monday (Y + 1) = m2"
      by (simp_all add: Y m1_def m2_def add.assoc)
    then show ?thesis unfolding W t_def [symmetric] using nxt s1 n1 tb by auto
  next
    case same
    with res have Y: "Y = y" and W: "W = wk + 1" by (auto split: if_splits)
    have "isoweek1monday Y = m0" "isoweek1monday (Y + 1) = m1" by (simp_all add: Y m0_def m1_def)
    moreover have "7 * wk + 7 \<le> m1 - m0"
    proof (cases "t < m1")
      case True
      with s0 wk week_count_le [of wk "t - m0" "m1 - m0"] show ?thesis by linarith
    next
      case False
      with same have "wk < 52" by simp
      with s0 show ?thesis by linarith
    qed
    ultimately show ?thesis unfolding W t_def [symmetric] using same wk by simp
  qed
qed

lemma week_start_eq:
  assumes "(M::int) mod 7 = 1" "M \<le> t" "t < M + 7"
  shows "t - (t + 6) mod 7 = M"
  using assms by presburger

lemma check_weekly_same_week:
  assumes a: "valid_date a" and b: "valid_date b"
  shows "check_weekly a b \<longleftrightarrow> toordinal a - weekday a = toordinal b - weekday b"
proof -
  obtain Ya Wa where ra: "isocalendar2 a = (Ya, Wa)" by (cases "isocalendar2 a")
  obtain Yb Wb where rb: "isocalendar2 b = (Yb, Wb)" by (cases "isocalendar2 b")
  note sa = isocalendar2_spec [OF a ra]
  note sb = isocalendar2_spec [OF b rb]
  define Ma where "Ma = isoweek1monday Ya + 7 * (Wa - 1)"
  define Mb where "Mb = isoweek1monday Yb + 7 * (Wb - 1)"
  have ma: "Ma mod 7 = 1" unfolding Ma_def mod_mult_self2 by (rule isoweek1monday_mod)
  have mb: "Mb mod 7 = 1" unfolding Mb_def mod_mult_self2 by (rule isoweek1monday_mod)
  have wa: "toordinal a - weekday a = Ma"
    unfolding weekday_def using sa by (intro week_start_eq [OF ma]) (simp_all add: Ma_def)
  have wb: "toordinal b - weekday b = Mb"
    unfolding weekday_def using sb by (intro week_start_eq [OF mb]) (simp_all add: Mb_def)
  show ?thesis
  proof
    assume "check_weekly a b"
    then have "Ya = Yb" "Wa = Wb" using ra rb by (simp_all add: check_weekly_def)
    then show "toordinal a - weekday a = toordinal b - weekday b"
      by (simp add: wa wb Ma_def Mb_def)
  next
    assume "toordinal a - weekday a = toordinal b - weekday b"
    then have eq: "Ma = Mb" by (simp add: wa wb)
    have Y: "Ya = Yb"
    proof (rule ccontr)
      assume "Ya \<noteq> Yb"
      then consider "Ya + 1 \<le> Yb" | "Yb + 1 \<le> Ya" by linarith
      then show False
      proof cases
        case 1
        from isoweek1monday_mono [OF 1] sa sb eq show False by (simp add: Ma_def Mb_def)
      next
        case 2
        from isoweek1monday_mono [OF 2] sa sb eq show False by (simp add: Ma_def Mb_def)
      qed
    qed
    with eq have "Wa = Wb" by (simp add: Ma_def Mb_def)
    with Y show "check_weekly a b" by (simp add: check_weekly_def ra rb)
  qed
qed

section \<open>Effects and strings\<close>

lemma fst_return_io [simp]: "fst (return_io x) = Inr x"
  by (simp add: return_io_def)

lemma snd_return_io [simp]: "snd (return_io x) = []"
  by (simp add: return_io_def)

lemma fst_bind_io:
  "fst (bind_io m f) = (case fst m of Inl e \<Rightarrow> Inl e | Inr x \<Rightarrow> fst (f x))"
  by (cases m) (simp add: bind_io_def split: sum.splits prod.splits)

lemma snd_bind_io:
  "snd (bind_io m f) = (case fst m of Inl e \<Rightarrow> snd m | Inr x \<Rightarrow> snd m @ snd (f x))"
  by (cases m) (simp add: bind_io_def split: sum.splits prod.splits)

lemma fst_try_except:
  "fst (try_except m h) = (case fst m of Inl e \<Rightarrow> fst (h e) | Inr x \<Rightarrow> Inr x)"
  by (cases m) (simp add: try_except_def split: sum.splits prod.splits)

lemma snd_try_except:
  "snd (try_except m h) = (case fst m of Inl e \<Rightarrow> snd m @ snd (h e) | Inr x \<Rightarrow> snd m)"
  by (cases m) (simp add: try_except_def split: sum.splits prod.splits)

lemmas io_simps = fst_bind_io snd_bind_io fst_try_except snd_try_except

lemma startswith_iff: "startswith s p \<longleftrightarrow> (\<exists>post. s = p @ post)"
  by (induction s p rule: startswith.induct) auto

lemma str_contains_iff: "str_contains s sub \<longleftrightarrow> occurs_in sub s"
proof (induction s)
  case Nil
  then show ?case by (auto simp: occurs_in_def)
next
  case (Cons c cs)
  show ?case
  proof
    assume "str_contains (c # cs) sub"
    then consider "startswith (c # cs) sub" | "str_contains cs sub" by auto
    then show "occurs_in sub (c # cs)"
    proof cases
      case 1
      then obtain post where "c # cs = sub @ post" by (auto simp: startswith_iff)
      then have "c # cs = [] @ sub @ post" by simp
      then show ?thesis unfolding occurs_in_def by blast
    next
      case 2
      with Cons obtain pre post where "cs = pre @ sub @ post" by (auto simp: occurs_in_def)
      then have "c # cs = (c # pre) @ sub @ post" by simp
      then show ?thesis unfolding occurs_in_def by blast
    qed
  next
    assume "occurs_in sub (c # cs)"
    then obtain pre post where e: "c # cs = pre @ sub @ post" by (auto simp: occurs_in_def)
    show "str_contains (c # cs) sub"
    proof (cases pre)
      case Nil
      with e have "startswith (c # cs) sub" unfolding startswith_iff by auto
      then show ?thesis by simp
    next
      case (Cons a pre')
      with e have "cs = pre' @ sub @ post" by simp
      then have "occurs_in sub cs" unfolding occurs_in_def by blast
      with Cons.IH show ?thesis by simp
    qed
  qed
qed


section \<open>The locator, the resolver and the window\<close>

lemma fst_getmtime [simp]: "fst (getmtime w p) = getmtime_result w p"
  by (simp add: getmtime_def)

lemma snd_getmtime [simp]: "snd (getmtime w p) = [Ev_getmtime p]"
  by (simp add: getmtime_def)

lemma max_key_loop_result:
  assumes "fst (max_key_loop key mi mv xs) = Inr f"
  shows "\<exists>fv. (f = mi \<and> fv = mv \<or> f \<in> set xs \<and> fst (key f) = Inr fv) \<and> mv \<le> fv \<and>
           (\<forall>x\<in>set xs. \<exists>v. fst (key x) = Inr v \<and> v \<le> fv)"
  using assms
proof (induction xs arbitrary: mi mv)
  case Nil
  then show ?case by simp
next
  case (Cons x xs)
  from Cons.prems obtain val where val: "fst (key x) = Inr val"
    by (cases "fst (key x)") (simp_all add: fst_bind_io)
  show ?case
  proof (cases "val > mv")
    case True
    with Cons.prems val have "fst (max_key_loop key x val xs) = Inr f"
      by (simp add: fst_bind_io)
    from Cons.IH [OF this] obtain fv where
      fv: "f = x \<and> fv = val \<or> f \<in> set xs \<and> fst (key f) = Inr fv" "val \<le> fv"
        "\<forall>y\<in>set xs. \<exists>v. fst (key y) = Inr v \<and> v \<le> fv"
      by blast
    from fv(1) val have "f \<in> set (x # xs) \<and> fst (key f) = Inr fv" by auto
    moreover from True fv(2) have "mv \<le> fv" by simp
    moreover from val fv(2,3) have "\<forall>y\<in>set (x # xs). \<exists>v. fst (key y) = Inr v \<and> v \<le> fv"
      by auto
    ultimately show ?thesis by blast
  next
    case False
    with Cons.prems val have "fst (max_key_loop key mi mv xs) = Inr f"
      by (simp add: fst_bind_io)
    from Cons.IH [OF this] obtain fv where
      fv: "f = mi \<and> fv = mv \<or> f \<in> set xs \<and> fst (key f) = Inr fv" "mv \<le> fv"
        "\<forall>y\<in>set xs. \<exists>v. fst (key y) = Inr v \<and> v \<le> fv"
      by blast
    from fv(1) have "f = mi \<and> fv = mv \<or> f \<in> set (x # xs) \<and> fst (key f) = Inr fv" by auto
    moreover from False val fv(2,3)
    have "\<forall>y\<in>set (x # xs). \<exists>v. fst (key y) = Inr v \<and> v \<le> fv"
      by auto
    ultimately show ?thesis using fv(2) by blast
  qed
qed

lemma max_key_loop_total:
  assumes "\<forall>x\<in>set xs. \<exists>v. fst (key x) = Inr v"
  shows "\<exists>f. fst (max_key_loop key mi mv xs) = Inr f"
  using assms
proof (induction xs arbitrary: mi mv)
  case Nil
  then show ?case by simp
next
  case (Cons x xs)
  then obtain val where val: "fst (key x) = Inr val" by auto
  from Cons have "\<exists>f. fst (max_key_loop key x val xs) = Inr f"
    and "\<exists>f. fst (max_key_loop key mi mv xs) = Inr f" by auto
  with val show ?case by (simp add: fst_bind_io)
qed

lemma max_key_result:
  assumes "fst (max_key key xs) = Inr f"
  shows "f \<in> set xs \<and> (\<exists>fv. fst (key f) = Inr fv \<and>
           (\<forall>x\<in>set xs. \<exists>v. fst (key x) = Inr v \<and> v \<le> fv))"
proof (cases xs)
  case Nil
  with assms show ?thesis by (simp add: max_key_def)
next
  case (Cons x xs')
  from assms Cons obtain val where val: "fst (key x) = Inr val"
    by (cases "fst (key x)") (simp_all add: max_key_def fst_bind_io)
  with assms Cons have "fst (max_key_loop key x val xs') = Inr f"
    by (simp add: max_key_def fst_bind_io)
  from max_key_loop_result [OF this] obtain fv where
    fv: "f = x \<and> fv = val \<or> f \<in> set xs' \<and> fst (key f) = Inr fv" "val \<le> fv"
      "\<forall>y\<in>set xs'. \<exists>v. fst (key y) = Inr v \<and> v \<le> fv"
    by blast
  from fv(1) val have "f \<in> set (x # xs') \<and> fst (key f) = Inr fv" by auto
  moreover from val fv(2,3) have "\<forall>y\<in>set (x # xs'). \<exists>v. fst (key y) = Inr v \<and> v \<le> fv"
    by auto
  ultimately show ?thesis using Cons by blast
qed

lemma max_key_total:
  assumes "xs \<noteq> []" "\<forall>x\<in>set xs. \<exists>v. fst (key x) = Inr v"
  shows "\<exists>f. fst (max_key key xs) = Inr f"
proof (cases xs)
  case Nil
  with assms show ?thesis by simp
next
  case (Cons x xs')
  with assms obtain val where val: "fst (key x) = Inr val" by auto
  from assms Cons have "\<exists>f. fst (max_key_loop key x val xs') = Inr f"
    by (intro max_key_loop_total) simp
  with val Cons show ?thesis by (simp add: max_key_def fst_bind_io)
qed

lemma max_key_loop_trace:
  "set (snd (max_key_loop (getmtime w) mi mv xs)) \<subseteq> Ev_getmtime ` set xs"
proof (induction xs arbitrary: mi mv)
  case Nil
  then show ?case by simp
next
  case (Cons x xs)
  from Cons [of x] Cons [of mi mv] show ?case
    by (auto simp: snd_bind_io split: sum.splits)
qed

lemma max_key_trace: "set (snd (max_key (getmtime w) xs)) \<subseteq> Ev_getmtime ` set xs"
proof (cases xs)
  case Nil
  then show ?thesis by (simp add: max_key_def)
next
  case (Cons x xs')
  with max_key_loop_trace [of w x _ xs'] show ?thesis
    by (auto simp: max_key_def snd_bind_io split: sum.splits)
qed

lemma fst_get_latest_log_file:
  "fst (get_latest_log_file w job) =
     (let files = glob_result w (expanduser w (log_pattern job)) in
      if files \<noteq> [] then
        (case fst (max_key (getmtime w) files) of Inl e \<Rightarrow> Inl e | Inr f \<Rightarrow> Inr (Some f))
      else Inr None)"
  by (simp add: get_latest_log_file_def glob_glob_def Let_def io_simps split: sum.splits)

lemma snd_get_latest_log_file:
  "snd (get_latest_log_file w job) =
     (let files = glob_result w (expanduser w (log_pattern job)) in
      Ev_glob (expanduser w (log_pattern job)) #
        (if files \<noteq> [] then snd (max_key (getmtime w) files) else []))"
  by (simp add: get_latest_log_file_def glob_glob_def Let_def io_simps split: sum.splits)

lemma expanduser_home:
  "environ_HOME w = Some home \<Longrightarrow>
   expanduser w (''~/'' @ rest) = rstrip_sep home @ ''/'' @ rest"
  by (simp add: expanduser_def Let_def)

lemma expanduser_no_tilde: "path = c # cs \<Longrightarrow> c \<noteq> CHR ''~'' \<Longrightarrow> expanduser w path = path"
  by (simp add: expanduser_def)

lemma is_job_running_trace:
  "e \<in> set (snd (is_job_running w pattern)) \<Longrightarrow> \<exists>args. e = Ev_subprocess args"
  by (cases pattern)
    (auto simp: is_job_running_def io_simps subprocess_call_def split: sum.splits if_splits)

lemma get_latest_log_file_trace:
  "e \<in> set (snd (get_latest_log_file w job)) \<Longrightarrow> (\<exists>p. e = Ev_glob p) \<or> (\<exists>p. e = Ev_getmtime p)"
  using max_key_trace [of w "glob_result w (expanduser w (log_pattern job))"]
  by (auto simp: snd_get_latest_log_file Let_def split: if_splits)

lemma getmtime_independent:
  "getmtime (w\<lparr>now_result := n, fromtimestamp_result := ft, read_result := rd,
      decode_replace := dc\<rparr>) = getmtime w"
  by (simp add: getmtime_def fun_eq_iff)

lemma expanduser_independent:
  "expanduser (w\<lparr>now_result := n, fromtimestamp_result := ft, read_result := rd,
      decode_replace := dc\<rparr>) path = expanduser w path"
  by (simp add: expanduser_def Let_def split: list.splits option.splits)

lemma get_latest_log_file_independent:
  "get_latest_log_file (w\<lparr>now_result := n, fromtimestamp_result := ft, read_result := rd,
      decode_replace := dc\<rparr>) job = get_latest_log_file w job"
  by (simp add: get_latest_log_file_def getmtime_independent glob_glob_def
      expanduser_independent Let_def cong: if_cong)

lemma is_job_running_independent:
  "is_job_running (w\<lparr>now_result := n, fromtimestamp_result := ft, read_result := rd,
      decode_replace := dc\<rparr>) pattern = is_job_running w pattern"
  by (cases pattern) (simp_all add: is_job_running_def subprocess_call_def cong: if_cong)

lemma get_job_state_running:
  assumes "fst (is_job_running w (Some (process_pattern job))) = Inr True"
    and "fst (get_latest_log_file w job) = Inr latest"
  shows "fst (get_job_state w job) =
      Inr \<lparr>status = RUNNING, message = ''Process active'', file_path = latest,
           last_modification_time = None\<rparr>"
    and "snd (get_job_state w job) =
      snd (is_job_running w (Some (process_pattern job))) @ snd (get_latest_log_file w job)"
  using assms by (simp_all add: get_job_state_def io_simps)

lemma analyze_log_file_file_path:
  "fst (analyze_log_file w f mt) = Inr st \<Longrightarrow> file_path st = Some f"
  by (auto simp: analyze_log_file_def io_simps open_read_def split: sum.splits if_splits)

lemma analyze_log_file_trace: "snd (analyze_log_file w f mt) = [Ev_open f]"
  by (auto simp: analyze_log_file_def io_simps open_read_def split: sum.splits if_splits)

lemma snd_is_execution_within_current_interval_None:
  "snd (is_execution_within_current_interval w dt freq None) = [Ev_now]"
  by (simp add: is_execution_within_current_interval_def io_simps datetime_now_def
      split: option.splits)

lemma get_latest_log_file_cong:
  assumes "environ_HOME w' = environ_HOME w" "getpwuid_dir w' = getpwuid_dir w"
    "getpwnam_dir w' = getpwnam_dir w" "glob_result w' = glob_result w"
    "getmtime_result w' = getmtime_result w"
  shows "get_latest_log_file w' job = get_latest_log_file w job"
proof -
  have "expanduser w' path = expanduser w path" for path
    by (simp add: expanduser_def Let_def assms split: list.splits option.splits)
  moreover have "getmtime w' = getmtime w"
    by (simp add: getmtime_def fun_eq_iff assms)
  ultimately show ?thesis
    by (simp add: get_latest_log_file_def glob_glob_def assms Let_def cong: if_cong)
qed

lemma is_job_running_cong:
  assumes "subprocess_result w' = subprocess_result w"
  shows "is_job_running w' pattern = is_job_running w pattern"
  by (cases pattern) (simp_all add: is_job_running_def subprocess_call_def assms cong: if_cong)

lemma is_execution_within_current_interval_cong:
  assumes "now_result w' = now_result w"
  shows "is_execution_within_current_interval w' dt freq cur =
         is_execution_within_current_interval w dt freq cur"
  by (cases cur) (simp_all add: is_execution_within_current_interval_def datetime_now_def assms)

lemma same_calendar_period_weekly:
  assumes "valid_date a" and "valid_date b"
  shows "same_calendar_period WEEKLY a b \<longleftrightarrow>
    toordinal a - weekday a = toordinal b - weekday b"
  using check_weekly_same_week [OF assms]
  by (simp add: same_calendar_period_def check_weekly_def)

lemma is_execution_within_current_interval_now:
  "is_execution_within_current_interval w last_run (JobFrequency_value fr) None =
     (Inr (same_calendar_period fr last_run (now_result w)), [Ev_now])"
  by (cases fr)
    (auto simp: is_execution_within_current_interval_def io_simps prod_eq_iff datetime_now_def
      FREQUENCY_STRATEGIES_def check_daily_def check_weekly_def check_monthly_def
      same_calendar_period_def)

lemma get_job_state_stale:
  assumes "fst (is_job_running w (Some (process_pattern job))) = Inr False"
    and "fst (get_latest_log_file w job) = Inr (Some f)"
    and "f \<noteq> []"
    and "getmtime_result w f = Inr t"
    and "fromtimestamp_result w t = Inr dt"
    and "fst (is_execution_within_current_interval w dt (JobFrequency_value (frequency job)) None)
           = Inr False"
  shows "fst (get_job_state w job) =
      Inr \<lparr>status = STALE, message = ''Pending'', file_path = Some f,
           last_modification_time = Some dt\<rparr>"
    and "snd (get_job_state w job) =
      snd (is_job_running w (Some (process_pattern job))) @ snd (get_latest_log_file w job) @
      [Ev_getmtime f, Ev_now]"
proof -
  have d: "fst (fromtimestamp w t) = Inr dt" "snd (fromtimestamp w t) = []"
    using assms(5) by (simp_all add: fromtimestamp_def)
  note n = snd_is_execution_within_current_interval_None
  show "fst (get_job_state w job) =
      Inr \<lparr>status = STALE, message = ''Pending'', file_path = Some f,
           last_modification_time = Some dt\<rparr>"
    unfolding get_job_state_def
    by (simp add: fst_bind_io assms(1,2,3,4,6) d)
  show "snd (get_job_state w job) =
      snd (is_job_running w (Some (process_pattern job))) @ snd (get_latest_log_file w job) @
      [Ev_getmtime f, Ev_now]"
    unfolding get_job_state_def
    by (simp add: fst_bind_io snd_bind_io assms(1,2,3,4,6) d n)
qed

lemma example_expanduser:
  "expanduser example_world (log_pattern example_job) = ''/home/u/logs/*.log''"
  by (simp add: example_world_def example_job_def expanduser_def)

lemma example_not_running:
  "is_job_running example_world (Some (process_pattern example_job)) =
     (Inr False, [Ev_subprocess [''pgrep'', ''-f'', ''backup_script.py'']])"
  by (simp add: is_job_running_def subprocess_call_def bind_io_def try_except_def return_io_def
      example_world_def example_job_def)

lemma example_latest:
  "fst (get_latest_log_file example_world example_job) = Inr (Some ''/home/u/logs/b.log'')"
proof -
  have g: "glob_result example_world ''/home/u/logs/*.log'' =
      [''/home/u/logs/a.log'', ''/home/u/logs/b.log'']"
    by (simp add: example_world_def)
  have m: "getmtime_result example_world ''/home/u/logs/a.log'' = Inr 100"
    "getmtime_result example_world ''/home/u/logs/b.log'' = Inr 200"
    by (simp_all add: example_world_def)
  show ?thesis
    by (simp add: fst_get_latest_log_file example_expanduser g m max_key_def fst_bind_io)
qed

lemma weekly_iff_same_week:
  assumes "valid_date a" "valid_date b"
  shows "fst (is_execution_within_current_interval w a (JobFrequency_value WEEKLY) (Some b)) =
         Inr (toordinal a - weekday a = toordinal b - weekday b)"
  using check_weekly_same_week [OF assms]
  by (simp add: is_execution_within_current_interval_def io_simps FREQUENCY_STRATEGIES_def)

lemma week_later_is_other_week:
  assumes "toordinal b = toordinal a + 7"
  shows "toordinal a - weekday a \<noteq> toordinal b - weekday b"
proof -
  have "(toordinal a + 7 + 6) mod 7 = (toordinal a + 6) mod 7"
    by presburger
  then have "weekday b = weekday a"
    unfolding weekday_def assms .
  with assms show ?thesis by simp
qed

lemma toordinal_2026_01_19: "toordinal (mk_datetime 2026 1 19 10 0) = 739635"
  by (simp add: toordinal_def ymd2ord_def days_before_year_def days_before_month_def
      DAYS_BEFORE_MONTH_def mk_datetime_def)

lemma toordinal_2026_01_26: "toordinal (mk_datetime 2026 1 26 10 0) = 739642"
  by (simp add: toordinal_def ymd2ord_def days_before_year_def days_before_month_def
      DAYS_BEFORE_MONTH_def mk_datetime_def)

lemma valid_2026_01_19: "valid_date (mk_datetime 2026 1 19 10 0)"
  by (simp add: valid_date_def days_in_month_def DAYS_IN_MONTH_def mk_datetime_def)

lemma valid_2026_01_26: "valid_date (mk_datetime 2026 1 26 10 0)"
  by (simp add: valid_date_def days_in_month_def DAYS_IN_MONTH_def mk_datetime_def)

section \<open>The claims\<close>

text \<open>
  Claim C1. When the liveness probe answers true for the job's process pattern and the
  locator returns (a path or nothing), \<open>get_job_state\<close> returns RUNNING with message
  "Process active", that locator result as file and no modification time. No clock is read
  and no file is opened on the way, and the result stays the same whatever the clock, the
  timestamp conversion and the contents of the files are.
\<close>

theorem running_process_gives_RUNNING:
  assumes "fst (is_job_running w (Some (process_pattern job))) = Inr True"
    and "fst (get_latest_log_file w job) = Inr latest"
  shows "fst (get_job_state w job) =
      Inr \<lparr>status = RUNNING, message = ''Process active'', file_path = latest,
           last_modification_time = None\<rparr> \<and>
    Ev_now \<notin> set (snd (get_job_state w job)) \<and>
    (\<forall>p. Ev_open p \<notin> set (snd (get_job_state w job))) \<and>
    (\<forall>n ft rd dc.
       fst (get_job_state (w\<lparr>now_result := n, fromtimestamp_result := ft, read_result := rd,
              decode_replace := dc\<rparr>) job) =
       Inr \<lparr>status = RUNNING, message = ''Process active'', file_path = latest,
            last_modification_time = None\<rparr>)"
proof (intro conjI allI)
  show "fst (get_job_state w job) =
      Inr \<lparr>status = RUNNING, message = ''Process active'', file_path = latest,
           last_modification_time = None\<rparr>"
    by (rule get_job_state_running [OF assms])
  show "Ev_now \<notin> set (snd (get_job_state w job))"
    unfolding get_job_state_running(2) [OF assms]
    using is_job_running_trace get_latest_log_file_trace by fastforce
  show "Ev_open p \<notin> set (snd (get_job_state w job))" for p
    unfolding get_job_state_running(2) [OF assms]
    using is_job_running_trace get_latest_log_file_trace by fastforce
  show "fst (get_job_state (w\<lparr>now_result := n, fromtimestamp_result := ft, read_result := rd,
              decode_replace := dc\<rparr>) job) =
       Inr \<lparr>status = RUNNING, message = ''Process active'', file_path = latest,
            last_modification_time = None\<rparr>" for n ft rd dc
    by (rule get_job_state_running(1))
      (simp_all add: is_job_running_independent get_latest_log_file_independent assms)
qed

theorem running_process_gives_RUNNING_witness:
  "fst (is_job_running world_running (Some (process_pattern example_job))) = Inr True \<and>
   fst (get_latest_log_file world_running example_job) = Inr (Some ''/home/u/logs/b.log'') \<and>
   fst (get_job_state world_running example_job) =
     Inr \<lparr>status = RUNNING, message = ''Process active'',
          file_path = Some ''/home/u/logs/b.log'', last_modification_time = None\<rparr>"
proof -
  have a: "fst (is_job_running world_running (Some (process_pattern example_job))) = Inr True"
    by (simp add: is_job_running_def subprocess_call_def io_simps example_job_def
        world_running_def)
  have "get_latest_log_file world_running example_job =
      get_latest_log_file example_world example_job"
    by (rule get_latest_log_file_cong) (simp_all add: world_running_def)
  with example_latest
  have b: "fst (get_latest_log_file world_running example_job) = Inr (Some ''/home/u/logs/b.log'')"
    by simp
  note r = running_process_gives_RUNNING [OF a b, THEN conjunct1]
  from a b r show ?thesis by (intro conjI)
qed

text \<open>
  Claim C2. When the probe answers false, the locator returns a file, and that file's
  modification time does not fall in the same calendar period as the current time (the
  date for a daily job, the ISO week for a weekly one, the month for a monthly one), the
  result is STALE with message "Pending", that file and that time. No file is opened, and
  the result is the same whatever the files contain: in the concrete world below the stale
  log holds the success marker.
\<close>

theorem stale_log_gives_STALE:
  assumes "fst (is_job_running w (Some (process_pattern job))) = Inr False"
    and "fst (get_latest_log_file w job) = Inr (Some f)"
    and "f \<noteq> []"
    and "getmtime_result w f = Inr t"
    and "fromtimestamp_result w t = Inr dt"
    and "\<not> same_calendar_period (frequency job) dt (now_result w)"
  shows "fst (get_job_state w job) =
      Inr \<lparr>status = STALE, message = ''Pending'', file_path = Some f,
           last_modification_time = Some dt\<rparr> \<and>
    (\<forall>p. Ev_open p \<notin> set (snd (get_job_state w job))) \<and>
    (\<forall>rd dc. fst (get_job_state (w\<lparr>read_result := rd, decode_replace := dc\<rparr>) job) =
       Inr \<lparr>status = STALE, message = ''Pending'', file_path = Some f,
            last_modification_time = Some dt\<rparr>)"
proof (intro conjI allI)
  have e: "fst (is_execution_within_current_interval w dt (JobFrequency_value (frequency job))
      None) = Inr False"
    using assms(6) by (simp add: is_execution_within_current_interval_now)
  note s = get_job_state_stale [OF assms(1-5) e]
  show "fst (get_job_state w job) =
      Inr \<lparr>status = STALE, message = ''Pending'', file_path = Some f,
           last_modification_time = Some dt\<rparr>"
    by (rule s(1))
  show "Ev_open p \<notin> set (snd (get_job_state w job))" for p
    unfolding s(2)
    using is_job_running_trace get_latest_log_file_trace by fastforce
  show "fst (get_job_state (w\<lparr>read_result := rd, decode_replace := dc\<rparr>) job) =
       Inr \<lparr>status = STALE, message = ''Pending'', file_path = Some f,
            last_modification_time = Some dt\<rparr>" for rd dc
  proof (rule get_job_state_stale(1))
    show "fst (is_job_running (w\<lparr>read_result := rd, decode_replace := dc\<rparr>)
        (Some (process_pattern job))) = Inr False"
      using assms(1) by (simp add: is_job_running_cong [of "w\<lparr>read_result := rd, decode_replace := dc\<rparr>" w])
    show "fst (get_latest_log_file (w\<lparr>read_result := rd, decode_replace := dc\<rparr>) job) =
        Inr (Some f)"
      using assms(2) by (simp add: get_latest_log_file_cong [of "w\<lparr>read_result := rd, decode_replace := dc\<rparr>" w])
    show "f \<noteq> []" by (rule assms(3))
    show "getmtime_result (w\<lparr>read_result := rd, decode_replace := dc\<rparr>) f = Inr t"
      using assms(4) by simp
    show "fromtimestamp_result (w\<lparr>read_result := rd, decode_replace := dc\<rparr>) t = Inr dt"
      using assms(5) by simp
    show "fst (is_execution_within_current_interval (w\<lparr>read_result := rd, decode_replace := dc\<rparr>)
        dt (JobFrequency_value (frequency job)) None) = Inr False"
      using assms(6) by (simp add: is_execution_within_current_interval_now)
  qed
qed

theorem stale_log_gives_STALE_witness:
  "fst (is_job_running example_world (Some (process_pattern example_job))) = Inr False \<and>
   fst (get_latest_log_file example_world example_job) = Inr (Some ''/home/u/logs/b.log'') \<and>
   ''/home/u/logs/b.log'' \<noteq> [] \<and>
   getmtime_result example_world ''/home/u/logs/b.log'' = Inr 200 \<and>
   fromtimestamp_result example_world 200 = Inr (mk_datetime 2026 1 31 12 0) \<and>
   frequency example_job = DAILY \<and>
   now_result example_world = mk_datetime 2026 2 1 15 0 \<and>
   \<not> same_calendar_period (frequency example_job) (mk_datetime 2026 1 31 12 0)
       (now_result example_world) \<and>
   read_result example_world ''/home/u/logs/b.log'' = Inr (255 # map of_char ''[JOB SUCCEEDED]'') \<and>
   str_contains (ascii_replace (255 # map of_char ''[JOB SUCCEEDED]'')) MARKER_SUCCESS \<and>
   fst (get_job_state example_world example_job) =
     Inr \<lparr>status = STALE, message = ''Pending'', file_path = Some ''/home/u/logs/b.log'',
          last_modification_time = Some (mk_datetime 2026 1 31 12 0)\<rparr>"
proof -
  have a: "fst (is_job_running example_world (Some (process_pattern example_job))) = Inr False"
    by (simp add: example_not_running)
  have c: "''/home/u/logs/b.log'' \<noteq> []" by simp
  have d: "getmtime_result example_world ''/home/u/logs/b.log'' = Inr 200"
    by (simp add: example_world_def)
  have e: "fromtimestamp_result example_world 200 = Inr (mk_datetime 2026 1 31 12 0)"
    by (simp add: example_world_def)
  have q: "frequency example_job = DAILY"
    by (simp add: example_job_def)
  have n: "now_result example_world = mk_datetime 2026 2 1 15 0"
    by (simp add: example_world_def)
  have f: "\<not> same_calendar_period (frequency example_job) (mk_datetime 2026 1 31 12 0)
       (now_result example_world)"
    by (simp add: same_calendar_period_def q n mk_datetime_def)
  have g: "read_result example_world ''/home/u/logs/b.log'' =
      Inr (255 # map of_char ''[JOB SUCCEEDED]'')"
    by (simp add: example_world_def)
  have h: "str_contains (ascii_replace (255 # map of_char ''[JOB SUCCEEDED]'')) MARKER_SUCCESS"
    by (simp add: ascii_replace_def MARKER_SUCCESS_def)
  note r = stale_log_gives_STALE [OF a example_latest c d e f, THEN conjunct1]
  from a example_latest c d e q n f g h r show ?thesis by (intro conjI)
qed

text \<open>
  Claim C3. Whatever the file at \<open>filepath\<close> decodes to, the classifier looks for the three
  markers as substrings anywhere in that text, in a strict order: the failure marker gives
  FAILED / "Failed"; otherwise the success marker gives SUCCESS / "Finished"; otherwise the
  start marker gives CRASHED / "Crashed"; otherwise UNKNOWN / "Unknown log format". Text
  with both the failure and the success marker is therefore FAILED, and each of the four
  results carries the file path and the modification time that were passed in.
\<close>

theorem analyze_log_file_priority:
  assumes "read_result w filepath = Inr bytes" and "content = decode_replace w bytes"
  shows "fst (analyze_log_file w filepath mt) = Inr
     (if occurs_in MARKER_FAILED content then
        \<lparr>status = FAILED, message = ''Failed'', file_path = Some filepath,
         last_modification_time = Some mt\<rparr>
      else if occurs_in MARKER_SUCCESS content then
        \<lparr>status = SUCCESS, message = ''Finished'', file_path = Some filepath,
         last_modification_time = Some mt\<rparr>
      else if occurs_in MARKER_STARTED content then
        \<lparr>status = CRASHED, message = ''Crashed'', file_path = Some filepath,
         last_modification_time = Some mt\<rparr>
      else
        \<lparr>status = UNKNOWN, message = ''Unknown log format'', file_path = Some filepath,
         last_modification_time = Some mt\<rparr>)"
  using assms by (simp add: analyze_log_file_def io_simps open_read_def str_contains_iff)

theorem analyze_log_file_priority_witness:
  "read_result example_world ''/home/u/logs/a.log'' =
     Inr (map of_char ''[JOB STARTED][JOB SUCCEEDED][JOB FAILED]'') \<and>
   fst (analyze_log_file example_world ''/home/u/logs/a.log'' (mk_datetime 2026 2 1 12 0)) =
     Inr \<lparr>status = FAILED, message = ''Failed'', file_path = Some ''/home/u/logs/a.log'',
          last_modification_time = Some (mk_datetime 2026 2 1 12 0)\<rparr>"
  using analyze_log_file_priority [of example_world "''/home/u/logs/a.log''"
      "map of_char ''[JOB STARTED][JOB SUCCEEDED][JOB FAILED]''"
      "ascii_replace (map of_char ''[JOB STARTED][JOB SUCCEEDED][JOB FAILED]'')"
      "mk_datetime 2026 2 1 12 0"]
  by (simp add: example_world_def str_contains_iff [symmetric] MARKER_FAILED_def
      ascii_replace_def)

text \<open>
  Claim C4. With an explicit reference time, the window evaluator returns true exactly when
  the two timestamps have the same (year, month, day) for daily, the same ISO (year, week)
  pair for weekly, and the same (year, month) for monthly. For dates the \<open>datetime\<close>
  constructor accepts, the same ISO pair means the same week from Monday to Sunday, so two
  dates seven days apart, such as two consecutive Mondays, are never in the same window.
\<close>

theorem window_is_same_calendar_period:
  "fst (is_execution_within_current_interval w a (JobFrequency_value DAILY) (Some b)) =
     Inr (year a = year b \<and> month a = month b \<and> day a = day b) \<and>
   fst (is_execution_within_current_interval w a (JobFrequency_value WEEKLY) (Some b)) =
     Inr (isocalendar2 a = isocalendar2 b) \<and>
   (valid_date a \<and> valid_date b \<longrightarrow>
      fst (is_execution_within_current_interval w a (JobFrequency_value WEEKLY) (Some b)) =
        Inr (toordinal a - weekday a = toordinal b - weekday b)) \<and>
   (valid_date a \<and> valid_date b \<and> toordinal b = toordinal a + 7 \<longrightarrow>
      fst (is_execution_within_current_interval w a (JobFrequency_value WEEKLY) (Some b)) =
        Inr False) \<and>
   fst (is_execution_within_current_interval w a (JobFrequency_value MONTHLY) (Some b)) =
     Inr (year a = year b \<and> month a = month b)"
proof (intro conjI impI)
  show "fst (is_execution_within_current_interval w a (JobFrequency_value DAILY) (Some b)) =
     Inr (year a = year b \<and> month a = month b \<and> day a = day b)"
    by (simp add: is_execution_within_current_interval_def io_simps FREQUENCY_STRATEGIES_def
        check_daily_def)
  show "fst (is_execution_within_current_interval w a (JobFrequency_value WEEKLY) (Some b)) =
     Inr (isocalendar2 a = isocalendar2 b)"
    by (simp add: is_execution_within_current_interval_def io_simps FREQUENCY_STRATEGIES_def
        check_weekly_def)
  show "fst (is_execution_within_current_interval w a (JobFrequency_value MONTHLY) (Some b)) =
     Inr (year a = year b \<and> month a = month b)"
    by (auto simp: is_execution_within_current_interval_def io_simps FREQUENCY_STRATEGIES_def
        check_monthly_def)
next
  assume "valid_date a \<and> valid_date b"
  then have "valid_date a" "valid_date b" by simp_all
  then show "fst (is_execution_within_current_interval w a (JobFrequency_value WEEKLY) (Some b)) =
        Inr (toordinal a - weekday a = toordinal b - weekday b)"
    by (rule weekly_iff_same_week)
next
  assume h: "valid_date a \<and> valid_date b \<and> toordinal b = toordinal a + 7"
  then have v: "valid_date a" "valid_date b" and t: "toordinal b = toordinal a + 7"
    by simp_all
  from week_later_is_other_week [OF t] weekly_iff_same_week [OF v, of w]
  show "fst (is_execution_within_current_interval w a (JobFrequency_value WEEKLY) (Some b)) =
        Inr False"
    by simp
qed

theorem window_is_same_calendar_period_witness:
  "valid_date (mk_datetime 2026 1 19 10 0) \<and> valid_date (mk_datetime 2026 1 26 10 0) \<and>
   toordinal (mk_datetime 2026 1 26 10 0) = toordinal (mk_datetime 2026 1 19 10 0) + 7 \<and>
   weekday (mk_datetime 2026 1 19 10 0) = 0 \<and> weekday (mk_datetime 2026 1 26 10 0) = 0 \<and>
   fst (is_execution_within_current_interval example_world (mk_datetime 2026 1 19 10 0)
          (JobFrequency_value WEEKLY) (Some (mk_datetime 2026 1 26 10 0))) = Inr False"
proof -
  have t: "toordinal (mk_datetime 2026 1 26 10 0) = toordinal (mk_datetime 2026 1 19 10 0) + 7"
    by (simp add: toordinal_2026_01_19 toordinal_2026_01_26)
  have d: "weekday (mk_datetime 2026 1 19 10 0) = 0" "weekday (mk_datetime 2026 1 26 10 0) = 0"
    by (simp_all add: weekday_def toordinal_2026_01_19 toordinal_2026_01_26)
  from window_is_same_calendar_period [of example_world "mk_datetime 2026 1 19 10 0"
      "mk_datetime 2026 1 26 10 0"] valid_2026_01_19 valid_2026_01_26 t
  have "fst (is_execution_within_current_interval example_world (mk_datetime 2026 1 19 10 0)
          (JobFrequency_value WEEKLY) (Some (mk_datetime 2026 1 26 10 0))) = Inr False"
    by blast
  with valid_2026_01_19 valid_2026_01_26 t d show ?thesis by (intro conjI)
qed

text \<open>
  Claim C5 says that a returned state without a file always has status MISSING. A job
  whose process is running while no log matches its pattern is RUNNING without a file.
\<close>

theorem running_without_logs_has_no_file:
  "fst (get_job_state world_running_no_logs example_job) =
     Inr \<lparr>status = RUNNING, message = ''Process active'', file_path = None,
          last_modification_time = None\<rparr> \<and>
   file_path \<lparr>status = RUNNING, message = ''Process active'', file_path = None,
          last_modification_time = None\<rparr> = None \<and>
   status \<lparr>status = RUNNING, message = ''Process active'', file_path = None,
          last_modification_time = None\<rparr> \<noteq> MISSING"
proof -
  have a: "fst (is_job_running world_running_no_logs (Some (process_pattern example_job))) =
      Inr True"
    by (simp add: is_job_running_def subprocess_call_def io_simps example_job_def
        world_running_no_logs_def)
  have b: "fst (get_latest_log_file world_running_no_logs example_job) = Inr None"
    by (simp add: fst_get_latest_log_file world_running_no_logs_def)
  from get_job_state_running(1) [OF a b] show ?thesis by simp
qed

text \<open>
  Claim C5, amended. A returned state without a file has status MISSING or RUNNING: every
  returned state with another status carries a log file path.
\<close>

theorem file_absent_only_if_MISSING_or_RUNNING:
  assumes "fst (get_job_state w job) = Inr st" and "file_path st = None"
  shows "status st = MISSING \<or> status st = RUNNING"
proof (cases "fst (is_job_running w (Some (process_pattern job)))")
  case (Inl e)
  with assms show ?thesis by (simp add: get_job_state_def io_simps)
next
  case (Inr running)
  show ?thesis
  proof (cases "fst (get_latest_log_file w job)")
    case (Inl e)
    with Inr assms show ?thesis by (simp add: get_job_state_def io_simps split: if_splits)
  next
    case latest: (Inr latest)
    show ?thesis
    proof (cases running)
      case True
      with Inr latest assms show ?thesis by (auto simp: get_job_state_def io_simps)
    next
      case False
      show ?thesis
      proof (cases latest)
        case None
        with False Inr latest assms show ?thesis by (auto simp: get_job_state_def io_simps)
      next
        case (Some lf)
        with False Inr latest assms show ?thesis
          by (auto simp: get_job_state_def io_simps fromtimestamp_def
              split: if_splits sum.splits dest: analyze_log_file_file_path)
      qed
    qed
  qed
qed

theorem file_absent_only_if_MISSING_or_RUNNING_witness:
  "fst (get_job_state world_running_no_logs example_job) =
     Inr \<lparr>status = RUNNING, message = ''Process active'', file_path = None,
          last_modification_time = None\<rparr> \<and>
   file_path \<lparr>status = RUNNING, message = ''Process active'', file_path = None,
          last_modification_time = None\<rparr> = None \<and>
   (status \<lparr>status = RUNNING, message = ''Process active'', file_path = None,
          last_modification_time = None\<rparr> = MISSING \<or>
    status \<lparr>status = RUNNING, message = ''Process active'', file_path = None,
          last_modification_time = None\<rparr> = RUNNING)"
proof -
  have a: "fst (is_job_running world_running_no_logs (Some (process_pattern example_job))) =
      Inr True"
    by (simp add: is_job_running_def subprocess_call_def io_simps example_job_def
        world_running_no_logs_def)
  have b: "fst (get_latest_log_file world_running_no_logs example_job) = Inr None"
    by (simp add: fst_get_latest_log_file world_running_no_logs_def)
  have c: "fst (get_job_state world_running_no_logs example_job) =
     Inr \<lparr>status = RUNNING, message = ''Process active'', file_path = None,
          last_modification_time = None\<rparr>"
    by (rule get_job_state_running(1) [OF a b])
  have d: "file_path \<lparr>status = RUNNING, message = ''Process active'', file_path = None,
          last_modification_time = None\<rparr> = None"
    by simp
  from file_absent_only_if_MISSING_or_RUNNING [OF c d] c d show ?thesis by (intro conjI)
qed

text \<open>
  Claim C6. When reading the file raises, the classifier returns ERROR with the exception's
  text as message, the file path, and no modification time. Bytes that cannot be decoded
  are not a failure: the text the \<open>replace\<close> error handler produces is classified like any
  other, so the result is never ERROR when the read itself succeeds.
\<close>

theorem analyze_log_file_read_failure:
  "(read_result w filepath = Inl e \<longrightarrow>
      analyze_log_file w filepath mt =
        (Inr \<lparr>status = ERROR, message = str_exn e, file_path = Some filepath,
              last_modification_time = None\<rparr>, [Ev_open filepath])) \<and>
   (read_result w filepath = Inr bytes \<longrightarrow>
      (\<exists>st. fst (analyze_log_file w filepath mt) = Inr st \<and> status st \<noteq> ERROR \<and>
         file_path st = Some filepath \<and> last_modification_time st = Some mt \<and>
         (status st = FAILED \<longleftrightarrow> occurs_in MARKER_FAILED (decode_replace w bytes)) \<and>
         (status st = UNKNOWN \<longleftrightarrow>
            \<not> occurs_in MARKER_FAILED (decode_replace w bytes) \<and>
            \<not> occurs_in MARKER_SUCCESS (decode_replace w bytes) \<and>
            \<not> occurs_in MARKER_STARTED (decode_replace w bytes))))"
proof -
  have "read_result w filepath = Inl e \<longrightarrow>
      analyze_log_file w filepath mt =
        (Inr \<lparr>status = ERROR, message = str_exn e, file_path = Some filepath,
              last_modification_time = None\<rparr>, [Ev_open filepath])"
    by (simp add: analyze_log_file_def open_read_def bind_io_def try_except_def return_io_def)
  moreover have "read_result w filepath = Inr bytes \<longrightarrow>
      (\<exists>st. fst (analyze_log_file w filepath mt) = Inr st \<and> status st \<noteq> ERROR \<and>
         file_path st = Some filepath \<and> last_modification_time st = Some mt \<and>
         (status st = FAILED \<longleftrightarrow> occurs_in MARKER_FAILED (decode_replace w bytes)) \<and>
         (status st = UNKNOWN \<longleftrightarrow>
            \<not> occurs_in MARKER_FAILED (decode_replace w bytes) \<and>
            \<not> occurs_in MARKER_SUCCESS (decode_replace w bytes) \<and>
            \<not> occurs_in MARKER_STARTED (decode_replace w bytes)))"
    by (simp add: analyze_log_file_def io_simps open_read_def str_contains_iff)
  ultimately show ?thesis by blast
qed

theorem analyze_log_file_read_failure_witness:
  "read_result example_world ''/nonexistent/file.log'' =
     Inl (Exception ''[Errno 2] No such file or directory'') \<and>
   analyze_log_file example_world ''/nonexistent/file.log'' (mk_datetime 2026 2 1 12 0) =
     (Inr \<lparr>status = ERROR, message = ''[Errno 2] No such file or directory'',
           file_path = Some ''/nonexistent/file.log'', last_modification_time = None\<rparr>,
      [Ev_open ''/nonexistent/file.log'']) \<and>
   read_result example_world ''/home/u/logs/b.log'' = Inr (255 # map of_char ''[JOB SUCCEEDED]'') \<and>
   decode_replace example_world (255 # map of_char ''[JOB SUCCEEDED]'') =
     65533 # map of_char ''[JOB SUCCEEDED]'' \<and>
   (\<exists>st. fst (analyze_log_file example_world ''/home/u/logs/b.log'' (mk_datetime 2026 2 1 12 0)) =
      Inr st \<and> status st \<noteq> ERROR)"
  using analyze_log_file_read_failure [of example_world "''/nonexistent/file.log''"
      "Exception ''[Errno 2] No such file or directory''" "mk_datetime 2026 2 1 12 0" "[]"]
    analyze_log_file_read_failure [of example_world "''/home/u/logs/b.log''"
      "Exception []" "mk_datetime 2026 2 1 12 0" "255 # map of_char ''[JOB SUCCEEDED]''"]
  by (simp add: example_world_def ascii_replace_def) blast

text \<open>
  Claim C7. The liveness probe always returns a boolean. For an absent or an empty pattern
  it returns false and makes no call at all; with a pattern it calls \<open>pgrep -f\<close> once, and an
  exception from that call is turned into false.
\<close>

theorem is_job_running_never_raises:
  "(\<exists>b. fst (is_job_running w pattern) = Inr b) \<and>
   is_job_running w None = (Inr False, []) \<and>
   is_job_running w (Some []) = (Inr False, []) \<and>
   (p \<noteq> [] \<and> subprocess_result w [''pgrep'', ''-f'', p] = Inl e \<longrightarrow>
      is_job_running w (Some p) = (Inr False, [Ev_subprocess [''pgrep'', ''-f'', p]])) \<and>
   (p \<noteq> [] \<and> subprocess_result w [''pgrep'', ''-f'', p] = Inr rc \<longrightarrow>
      is_job_running w (Some p) = (Inr (rc = 0), [Ev_subprocess [''pgrep'', ''-f'', p]]))"
proof -
  have "\<exists>b. fst (is_job_running w pattern) = Inr b"
    by (cases pattern)
      (auto simp: is_job_running_def io_simps subprocess_call_def split: sum.splits)
  moreover have "is_job_running w None = (Inr False, [])"
    by (simp add: is_job_running_def return_io_def)
  moreover have "is_job_running w (Some []) = (Inr False, [])"
    by (simp add: is_job_running_def return_io_def)
  moreover have "p \<noteq> [] \<and> subprocess_result w [''pgrep'', ''-f'', p] = Inl e \<longrightarrow>
      is_job_running w (Some p) = (Inr False, [Ev_subprocess [''pgrep'', ''-f'', p]])"
    by (simp add: is_job_running_def subprocess_call_def bind_io_def try_except_def return_io_def)
  moreover have "p \<noteq> [] \<and> subprocess_result w [''pgrep'', ''-f'', p] = Inr rc \<longrightarrow>
      is_job_running w (Some p) = (Inr (rc = 0), [Ev_subprocess [''pgrep'', ''-f'', p]])"
    by (simp add: is_job_running_def subprocess_call_def bind_io_def try_except_def return_io_def)
  ultimately show ?thesis by blast
qed

theorem is_job_running_never_raises_witness:
  "''backup_script.py'' \<noteq> [] \<and>
   subprocess_result (example_world\<lparr>subprocess_result := \<lambda>args. Inl (Exception ''[Errno 2] No such file or directory: pgrep'')\<rparr>)
     [''pgrep'', ''-f'', ''backup_script.py''] = Inl (Exception ''[Errno 2] No such file or directory: pgrep'') \<and>
   is_job_running (example_world\<lparr>subprocess_result := \<lambda>args. Inl (Exception ''[Errno 2] No such file or directory: pgrep'')\<rparr>)
     (Some ''backup_script.py'') = (Inr False, [Ev_subprocess [''pgrep'', ''-f'', ''backup_script.py'']])"
  using is_job_running_never_raises [of
      "example_world\<lparr>subprocess_result := \<lambda>args. Inl (Exception ''[Errno 2] No such file or directory: pgrep'')\<rparr>"
      None "''backup_script.py''" "Exception ''[Errno 2] No such file or directory: pgrep''" 0]
  by simp

lemma FREQUENCY_STRATEGIES_None:
  "FREQUENCY_STRATEGIES freq = None \<longleftrightarrow> freq \<notin> {''daily'', ''weekly'', ''monthly''}"
  by (auto simp: FREQUENCY_STRATEGIES_def)

text \<open>
  Claim C8. The frequency tags without an entry in \<open>FREQUENCY_STRATEGIES\<close> are those other
  than daily, weekly and monthly, and for each of them the window evaluator returns false,
  whatever the two timestamps are, and does not raise.
\<close>

theorem unknown_frequency_is_outside:
  "(FREQUENCY_STRATEGIES freq = None \<longleftrightarrow> freq \<notin> {''daily'', ''weekly'', ''monthly''}) \<and>
   (freq \<notin> {''daily'', ''weekly'', ''monthly''} \<longrightarrow>
      fst (is_execution_within_current_interval w last_run freq current_time) = Inr False)"
proof (intro conjI impI)
  show "FREQUENCY_STRATEGIES freq = None \<longleftrightarrow> freq \<notin> {''daily'', ''weekly'', ''monthly''}"
    by (rule FREQUENCY_STRATEGIES_None)
next
  assume "freq \<notin> {''daily'', ''weekly'', ''monthly''}"
  then have n: "FREQUENCY_STRATEGIES freq = None"
    using FREQUENCY_STRATEGIES_None [of freq] by blast
  show "fst (is_execution_within_current_interval w last_run freq current_time) = Inr False"
    by (cases current_time)
      (simp_all add: n is_execution_within_current_interval_def io_simps datetime_now_def)
qed

theorem unknown_frequency_is_outside_witness:
  "''invalid_frequency'' \<notin> {''daily'', ''weekly'', ''monthly''} \<and>
   fst (is_execution_within_current_interval example_world (mk_datetime 2026 2 1 10 0)
          ''invalid_frequency'' (Some (mk_datetime 2026 2 1 15 0))) = Inr False"
  using unknown_frequency_is_outside [of "''invalid_frequency''" example_world
      "mk_datetime 2026 2 1 10 0" "Some (mk_datetime 2026 2 1 15 0)"]
  by simp

text \<open>
  Claim C9. The locator passes the pattern through \<open>expanduser\<close> (which puts the caller's
  home directory for a leading \<open>~/\<close> and leaves a pattern without a tilde alone) and calls
  \<open>glob\<close> on the result before anything else. With no match it returns nothing, without
  raising and without a further call, and it returns nothing only then. With matches whose
  modification times can all be read it returns a path; and a path it returns is a match
  whose modification time is the greatest among all matches.
\<close>

theorem get_latest_log_file_latest:
  "(glob_result w (expanduser w (log_pattern job)) = [] \<longrightarrow>
      get_latest_log_file w job = (Inr None, [Ev_glob (expanduser w (log_pattern job))])) \<and>
   (fst (get_latest_log_file w job) = Inr None \<longrightarrow>
      glob_result w (expanduser w (log_pattern job)) = []) \<and>
   (glob_result w (expanduser w (log_pattern job)) \<noteq> [] \<and>
    (\<forall>g\<in>set (glob_result w (expanduser w (log_pattern job))). \<exists>u. getmtime_result w g = Inr u) \<longrightarrow>
      (\<exists>f. fst (get_latest_log_file w job) = Inr (Some f))) \<and>
   (fst (get_latest_log_file w job) = Inr (Some f) \<longrightarrow>
      f \<in> set (glob_result w (expanduser w (log_pattern job))) \<and>
      (\<exists>t. getmtime_result w f = Inr t \<and>
         (\<forall>g\<in>set (glob_result w (expanduser w (log_pattern job))).
            \<exists>u. getmtime_result w g = Inr u \<and> u \<le> t))) \<and>
   (\<exists>tr. snd (get_latest_log_file w job) = Ev_glob (expanduser w (log_pattern job)) # tr \<and>
      set tr \<subseteq> Ev_getmtime ` set (glob_result w (expanduser w (log_pattern job)))) \<and>
   (environ_HOME w = Some home \<longrightarrow>
      expanduser w (''~/'' @ rest) = rstrip_sep home @ ''/'' @ rest) \<and>
   (path = c # cs \<and> c \<noteq> CHR ''~'' \<longrightarrow> expanduser w path = path)"
proof -
  define files where "files = glob_result w (expanduser w (log_pattern job))"
  have a: "files = [] \<longrightarrow>
      get_latest_log_file w job = (Inr None, [Ev_glob (expanduser w (log_pattern job))])"
    by (simp add: prod_eq_iff fst_get_latest_log_file snd_get_latest_log_file files_def)
  have b: "fst (get_latest_log_file w job) = Inr None \<longrightarrow> files = []"
    by (auto simp: fst_get_latest_log_file files_def Let_def split: sum.splits if_splits)
  have c: "files \<noteq> [] \<and> (\<forall>g\<in>set files. \<exists>u. getmtime_result w g = Inr u) \<longrightarrow>
      (\<exists>f. fst (get_latest_log_file w job) = Inr (Some f))"
  proof
    assume h: "files \<noteq> [] \<and> (\<forall>g\<in>set files. \<exists>u. getmtime_result w g = Inr u)"
    then have "\<exists>f. fst (max_key (getmtime w) files) = Inr f"
      by (intro max_key_total) simp_all
    with h show "\<exists>f. fst (get_latest_log_file w job) = Inr (Some f)"
      by (auto simp: fst_get_latest_log_file files_def [symmetric])
  qed
  have d: "fst (get_latest_log_file w job) = Inr (Some f) \<longrightarrow>
      f \<in> set files \<and>
      (\<exists>t. getmtime_result w f = Inr t \<and>
         (\<forall>g\<in>set files. \<exists>u. getmtime_result w g = Inr u \<and> u \<le> t))"
  proof
    assume "fst (get_latest_log_file w job) = Inr (Some f)"
    then have "fst (max_key (getmtime w) files) = Inr f"
      by (auto simp: fst_get_latest_log_file files_def [symmetric] split: sum.splits if_splits)
    from max_key_result [OF this]
    show "f \<in> set files \<and>
      (\<exists>t. getmtime_result w f = Inr t \<and>
         (\<forall>g\<in>set files. \<exists>u. getmtime_result w g = Inr u \<and> u \<le> t))"
      by simp
  qed
  have e: "\<exists>tr. snd (get_latest_log_file w job) = Ev_glob (expanduser w (log_pattern job)) # tr \<and>
      set tr \<subseteq> Ev_getmtime ` set files"
    using max_key_trace [of w files]
    by (auto simp: snd_get_latest_log_file files_def [symmetric])
  have f: "environ_HOME w = Some home \<longrightarrow>
      expanduser w (''~/'' @ rest) = rstrip_sep home @ ''/'' @ rest"
    using expanduser_home by blast
  have g: "path = c # cs \<and> c \<noteq> CHR ''~'' \<longrightarrow> expanduser w path = path"
    using expanduser_no_tilde by blast
  from a b c d e f g show ?thesis unfolding files_def by blast
qed

theorem get_latest_log_file_latest_witness:
  "environ_HOME example_world = Some ''/home/u'' \<and>
   expanduser example_world (log_pattern example_job) = ''/home/u/logs/*.log'' \<and>
   glob_result example_world ''/home/u/logs/*.log'' =
     [''/home/u/logs/a.log'', ''/home/u/logs/b.log''] \<and>
   getmtime_result example_world ''/home/u/logs/a.log'' = Inr 100 \<and>
   getmtime_result example_world ''/home/u/logs/b.log'' = Inr 200 \<and>
   fst (get_latest_log_file example_world example_job) = Inr (Some ''/home/u/logs/b.log'') \<and>
   ''/home/u/logs/b.log'' \<in> set (glob_result example_world ''/home/u/logs/*.log'')"
proof -
  have h: "environ_HOME example_world = Some ''/home/u''"
    by (simp add: example_world_def)
  have e: "expanduser example_world (log_pattern example_job) = ''/home/u/logs/*.log''"
    by (simp add: example_world_def example_job_def expanduser_def)
  have g: "glob_result example_world ''/home/u/logs/*.log'' =
      [''/home/u/logs/a.log'', ''/home/u/logs/b.log'']"
    by (simp add: example_world_def)
  have m: "getmtime_result example_world ''/home/u/logs/a.log'' = Inr 100"
    "getmtime_result example_world ''/home/u/logs/b.log'' = Inr 200"
    by (simp_all add: example_world_def)
  have r: "fst (get_latest_log_file example_world example_job) = Inr (Some ''/home/u/logs/b.log'')"
    by (simp add: fst_get_latest_log_file e g m max_key_def fst_bind_io)
  note t = get_latest_log_file_latest [of example_world example_job "''/home/u/logs/b.log''"
      "''/home/u''" "''logs/*.log''" "''/var/log/x''" "CHR ''/''" "''var/log/x''",
      THEN conjunct2, THEN conjunct2, THEN conjunct2, THEN conjunct1, THEN mp, OF r,
      THEN conjunct1]
  from t have i: "''/home/u/logs/b.log'' \<in> set (glob_result example_world ''/home/u/logs/*.log'')"
    unfolding e .
  from h e g m r i show ?thesis by (intro conjI)
qed

text \<open>
  Claim C10. When the probe answers false and nothing matches the log pattern, the result
  is MISSING with message "No logs found", no file and no modification time. The calls made
  are those of the probe followed by the one \<open>glob\<close>: no clock is read, no file opened.
\<close>

theorem no_logs_gives_MISSING:
  assumes "fst (is_job_running w (Some (process_pattern job))) = Inr False"
    and "glob_result w (expanduser w (log_pattern job)) = []"
  shows "fst (get_job_state w job) =
      Inr \<lparr>status = MISSING, message = ''No logs found'', file_path = None,
           last_modification_time = None\<rparr> \<and>
    snd (get_job_state w job) =
      snd (is_job_running w (Some (process_pattern job))) @
      [Ev_glob (expanduser w (log_pattern job))] \<and>
    Ev_now \<notin> set (snd (get_job_state w job)) \<and>
    (\<forall>p. Ev_open p \<notin> set (snd (get_job_state w job)))"
proof -
  have l: "get_latest_log_file w job = (Inr None, [Ev_glob (expanduser w (log_pattern job))])"
    using assms(2) by (simp add: prod_eq_iff fst_get_latest_log_file snd_get_latest_log_file)
  have a: "fst (get_job_state w job) =
      Inr \<lparr>status = MISSING, message = ''No logs found'', file_path = None,
           last_modification_time = None\<rparr>"
    using assms(1) by (simp add: get_job_state_def io_simps l)
  have b: "snd (get_job_state w job) =
      snd (is_job_running w (Some (process_pattern job))) @
      [Ev_glob (expanduser w (log_pattern job))]"
    using assms(1) by (simp add: get_job_state_def io_simps l)
  have c: "Ev_now \<notin> set (snd (get_job_state w job))"
    unfolding b using is_job_running_trace by fastforce
  have d: "\<forall>p. Ev_open p \<notin> set (snd (get_job_state w job))"
    unfolding b using is_job_running_trace by fastforce
  from a b c d show ?thesis by blast
qed

theorem no_logs_gives_MISSING_witness:
  "fst (is_job_running world_no_logs (Some (process_pattern example_job))) = Inr False \<and>
   glob_result world_no_logs (expanduser world_no_logs (log_pattern example_job)) = [] \<and>
   fst (get_job_state world_no_logs example_job) =
     Inr \<lparr>status = MISSING, message = ''No logs found'', file_path = None,
          last_modification_time = None\<rparr>"
proof -
  have "is_job_running world_no_logs (Some (process_pattern example_job)) =
      is_job_running example_world (Some (process_pattern example_job))"
    by (rule is_job_running_cong) (simp add: world_no_logs_def)
  then have a: "fst (is_job_running world_no_logs (Some (process_pattern example_job))) =
      Inr False"
    by (simp add: example_not_running)
  have b: "glob_result world_no_logs (expanduser world_no_logs (log_pattern example_job)) = []"
    by (simp add: world_no_logs_def)
  note r = no_logs_gives_MISSING [OF a b, THEN conjunct1]
  from a b r show ?thesis by (intro conjI)
qed

end
